theory Spec2Isabelle
  imports Main "HOL-Library.Word"
begin

unbundle bit_operations_syntax

section \<open>Bytes, slices and the ways a call can end\<close>

text \<open>
  The decoder of \<^verbatim>\<open>nsloggerDecode.go\<close> works on a Go byte slice with \<^verbatim>\<open>uint32\<close>
  cursors. A Go string is a sequence of bytes, so the input, the separator and the
  rendered text are all byte lists; \<open>ascii\<close> writes a literal.
\<close>

type_synonym byte = "8 word"
type_synonym bytes = "byte list"
type_synonym uint16 = "16 word"
type_synonym uint32 = "32 word"

definition ascii :: "string \<Rightarrow> bytes" where
  "ascii s = map of_char s"

text \<open>
  A slice is its backing bytes from the slice start up to the capacity, and its length.
  Indexing \<^verbatim>\<open>b[i]\<close> is checked against the length; a slice expression
  \<^verbatim>\<open>b[lo:hi]\<close> is checked against the capacity (\<open>0 \<le> lo \<le> hi \<le> cap(b)\<close>), as Go
  does for slices. The indices are \<^verbatim>\<open>uint32\<close> values that have already wrapped.
\<close>

record slice =
  store :: bytes
  len :: nat

definition cap :: "slice \<Rightarrow> nat" where
  "cap b = length (store b)"

definition wf_slice :: "slice \<Rightarrow> bool" where
  "wf_slice b \<longleftrightarrow> len b \<le> cap b"

text \<open>
  A call ends by returning, by a run-time panic (index or slice bounds out of range), or
  in \<^verbatim>\<open>check\<close>, whose \<^verbatim>\<open>log.Fatal\<close> prints the error and exits the process.
\<close>

datatype abort = RuntimePanic | LogFatal string

definition andThen :: "abort + 'a \<Rightarrow> ('a \<Rightarrow> abort + 'b) \<Rightarrow> abort + 'b" where
  "andThen x f = (case x of Inl a \<Rightarrow> Inl a | Inr v \<Rightarrow> f v)"

definition index :: "slice \<Rightarrow> uint32 \<Rightarrow> abort + byte" where
  "index b i = (if unat i < len b \<and> unat i < cap b then Inr (store b ! unat i) else Inl RuntimePanic)"

definition subslice :: "slice \<Rightarrow> uint32 \<Rightarrow> uint32 \<Rightarrow> abort + bytes" where
  "subslice b lo hi =
     (if unat lo \<le> unat hi \<and> unat hi \<le> cap b
      then Inr (take (unat hi - unat lo) (drop (unat lo) (store b)))
      else Inl RuntimePanic)"

text \<open>\<^verbatim>\<open>uint32(len(b))\<close>: the length truncated to 32 bits.\<close>

definition fileSize :: "slice \<Rightarrow> uint32" where
  "fileSize b = of_nat (len b)"

section \<open>Library calls\<close>

text \<open>
  \<^verbatim>\<open>BigEndian.Uint32\<close> and \<^verbatim>\<open>BigEndian.Uint16\<close> of \<^verbatim>\<open>encoding/binary\<close>: they
  panic on a slice that is too short.
\<close>

fun Uint32 :: "bytes \<Rightarrow> abort + uint32" where
  "Uint32 (b0 # b1 # b2 # b3 # _) =
     Inr (ucast b3 OR push_bit 8 (ucast b2) OR push_bit 16 (ucast b1) OR push_bit 24 (ucast b0))"
| "Uint32 _ = Inl RuntimePanic"

text \<open>\<^verbatim>\<open>BigEndian.PutUint32\<close>, the encoder of a 4-byte length field, to state a round trip.\<close>

definition PutUint32 :: "uint32 \<Rightarrow> bytes" where
  "PutUint32 v = [ucast (drop_bit 24 v), ucast (drop_bit 16 v), ucast (drop_bit 8 v), ucast v]"

fun Uint16 :: "bytes \<Rightarrow> abort + uint16" where
  "Uint16 (b0 # b1 # _) = Inr (ucast b1 OR push_bit 8 (ucast b0))"
| "Uint16 _ = Inl RuntimePanic"

fun Uint64 :: "bytes \<Rightarrow> abort + 64 word" where
  "Uint64 (b0 # b1 # b2 # b3 # b4 # b5 # b6 # b7 # _) =
     Inr (ucast b7 OR push_bit 8 (ucast b6) OR push_bit 16 (ucast b5) OR push_bit 24 (ucast b4)
          OR push_bit 32 (ucast b3) OR push_bit 40 (ucast b2) OR push_bit 48 (ucast b1)
          OR push_bit 56 (ucast b0))"
| "Uint64 _ = Inl RuntimePanic"

text \<open>
  \<^verbatim>\<open>binary.Read(bytes.NewReader(s), BigEndian, &val)\<close> for a fixed-size integer: it
  reads the size of \<open>val\<close> from the reader and returns an error when the reader holds
  fewer bytes; the caller hands the error to \<^verbatim>\<open>check\<close>.
\<close>

definition readErr :: "bytes \<Rightarrow> string" where
  "readErr s = (if s = [] then ''EOF'' else ''unexpected EOF'')"

definition ReadInt16 :: "bytes \<Rightarrow> abort + uint16" where
  "ReadInt16 s = (if length s < 2 then Inl (LogFatal (readErr s)) else Uint16 s)"

definition ReadInt32 :: "bytes \<Rightarrow> abort + uint32" where
  "ReadInt32 s = (if length s < 4 then Inl (LogFatal (readErr s)) else Uint32 s)"

definition ReadInt64 :: "bytes \<Rightarrow> abort + 64 word" where
  "ReadInt64 s = (if length s < 8 then Inl (LogFatal (readErr s)) else Uint64 s)"

text \<open>The verb \<^verbatim>\<open>%v\<close> on a signed integer: its decimal digits, with a minus sign.\<close>

fun digits :: "nat \<Rightarrow> bytes" where
  "digits n = (if n < 10 then [of_nat (48 + n)] else digits (n div 10) @ [of_nat (48 + n mod 10)])"

declare digits.simps [simp del]

definition fmtInt :: "int \<Rightarrow> bytes" where
  "fmtInt i = (if i < 0 then 45 # digits (nat (- i)) else digits (nat i))"

text \<open>
  Two things the decoder takes from the Go library are parameters of the model:
  \<^item> \<open>timeString\<close>: \<^verbatim>\<open>fmt.Sprintf("%v", time.Unix(val, 0))\<close>, the date and time of a
    number of seconds in the local time zone of the process;
  \<^item> \<open>fmtDirective\<close>: what \<^verbatim>\<open>fmt\<close> prints for a format that continues after a
    \<^verbatim>\<open>%\<close> with anything but a second \<^verbatim>\<open>%\<close> (flags, width, argument index, verb and
    the rest of the format), given the one integer operand of the call.
\<close>

record stdlib =
  timeString :: "int \<Rightarrow> bytes"
  fmtDirective :: "bytes \<Rightarrow> int \<Rightarrow> bytes"

text \<open>A library that prints nothing, to run the decoder on concrete buffers.\<close>

definition lib0 :: stdlib where
  "lib0 = \<lparr>timeString = (\<lambda>_. []), fmtDirective = (\<lambda>_ _. [])\<rparr>"

text \<open>
  The rest of a format string once \<^verbatim>\<open>%v\<close> has used up the only operand, as
  \<^verbatim>\<open>fmt\<close> prints it: bytes other than \<^verbatim>\<open>%\<close> are copied, \<^verbatim>\<open>%%\<close> prints one
  \<^verbatim>\<open>%\<close>, a \<^verbatim>\<open>%\<close> that ends the format prints \<^verbatim>\<open>%!(NOVERB)\<close>.
\<close>

fun fmtTail :: "stdlib \<Rightarrow> int \<Rightarrow> bytes \<Rightarrow> bytes" where
  "fmtTail L v [] = []"
| "fmtTail L v [c] = (if c = 37 then ascii ''%!(NOVERB)'' else [c])"
| "fmtTail L v (c # d # cs) =
     (if c \<noteq> 37 then c # fmtTail L v (d # cs)
      else if d = 37 then 37 # fmtTail L v cs
      else fmtDirective L (d # cs) v)"

text \<open>\<^verbatim>\<open>fmt.Sprintf("%v"+separator, value)\<close>.\<close>

definition Sprintf_v :: "stdlib \<Rightarrow> bytes \<Rightarrow> int \<Rightarrow> bytes" where
  "Sprintf_v L separator v = fmtInt v @ fmtTail L v separator"

section \<open>The record accumulator \<^verbatim>\<open>logMessageString\<close>\<close>

record logMessageString =
  "value" :: bytes
  separator :: bytes

definition String :: "logMessageString \<Rightarrow> bytes" where
  "String t = value t"

definition addString :: "logMessageString \<Rightarrow> bytes \<Rightarrow> logMessageString" where
  "addString t v = (if v \<noteq> [] then t\<lparr>value := value t @ (v @ separator t)\<rparr> else t)"

definition addInt16 :: "stdlib \<Rightarrow> logMessageString \<Rightarrow> uint16 \<Rightarrow> logMessageString" where
  "addInt16 L t v = t\<lparr>value := value t @ Sprintf_v L (separator t) (sint v)\<rparr>"

definition addInt32 :: "stdlib \<Rightarrow> logMessageString \<Rightarrow> uint32 \<Rightarrow> logMessageString" where
  "addInt32 L t v = t\<lparr>value := value t @ Sprintf_v L (separator t) (sint v)\<rparr>"

definition addInt64 :: "stdlib \<Rightarrow> logMessageString \<Rightarrow> 64 word \<Rightarrow> logMessageString" where
  "addInt64 L t v = t\<lparr>value := value t @ Sprintf_v L (separator t) (sint v)\<rparr>"

section \<open>Part keys and part types\<close>

definition PartKeyMessageType :: byte where "PartKeyMessageType = 0"
definition PartKeyTimestampS :: byte where "PartKeyTimestampS = 1"
definition PartKeyTimestampMs :: byte where "PartKeyTimestampMs = 2"
definition PartKeyTimestampUs :: byte where "PartKeyTimestampUs = 3"
definition PartKeyThreadId :: byte where "PartKeyThreadId = 4"
definition PartKeyTag :: byte where "PartKeyTag = 5"
definition PartKeyLevel :: byte where "PartKeyLevel = 6"
definition PartKeyMessage :: byte where "PartKeyMessage = 7"
definition PartKeyImageWidth :: byte where "PartKeyImageWidth = 8"
definition PartKeyImageHeight :: byte where "PartKeyImageHeight = 9"
definition PartKeyMessageSeq :: byte where "PartKeyMessageSeq = 10"
definition PartKeyFilename :: byte where "PartKeyFilename = 11"
definition PartKeyLinenumber :: byte where "PartKeyLinenumber = 12"
definition PartKeyFunctionname :: byte where "PartKeyFunctionname = 13"
definition PartKeyClientName :: byte where "PartKeyClientName = 20"
definition PartKeyClientVersion :: byte where "PartKeyClientVersion = 21"
definition PartKeyOsName :: byte where "PartKeyOsName = 22"
definition PartKeyOsVersion :: byte where "PartKeyOsVersion = 23"
definition PartKeyClientModel :: byte where "PartKeyClientModel = 24"
definition PartKeyUniqueid :: byte where "PartKeyUniqueid = 25"
definition PartKeyUserDefined :: byte where "PartKeyUserDefined = 100"

definition PartTypeString :: byte where "PartTypeString = 0"
definition PartTypeBinary :: byte where "PartTypeBinary = 1"
definition PartTypeInt16 :: byte where "PartTypeInt16 = 2"
definition PartTypeInt32 :: byte where "PartTypeInt32 = 3"
definition PartTypeInt64 :: byte where "PartTypeInt64 = 4"
definition PartTypeImage :: byte where "PartTypeImage = 5"

text \<open>
  The keys whose \<^verbatim>\<open>case\<close> in the switch of \<^verbatim>\<open>NsLoggerParse\<close> is empty, in the order of
  the source. A Go \<^verbatim>\<open>case\<close> does not fall through, so these do nothing.
\<close>

definition plainKeys :: "byte list" where
  "plainKeys =
     [PartKeyMessageType, PartKeyTimestampMs, PartKeyTimestampUs, PartKeyThreadId, PartKeyTag,
      PartKeyLevel, PartKeyMessage, PartKeyImageWidth, PartKeyImageHeight, PartKeyFilename,
      PartKeyLinenumber, PartKeyFunctionname, PartKeyClientName, PartKeyClientVersion,
      PartKeyOsName, PartKeyOsVersion, PartKeyClientModel, PartKeyUniqueid]"

definition recognizedKey :: "byte \<Rightarrow> bool" where
  "recognizedKey key \<longleftrightarrow> key = PartKeyTimestampS \<or> key = PartKeyMessageSeq \<or> key \<in> set plainKeys"

section \<open>The part decoder\<close>

text \<open>
  The 4-byte length that follows the type byte of a string, binary or image part:
  \<^verbatim>\<open>BigEndian.Uint32(b[nBytes+2 : nBytes+6])\<close>.
\<close>

definition partLength :: "slice \<Rightarrow> uint32 \<Rightarrow> abort + uint32" where
  "partLength b nBytes = andThen (subslice b (nBytes + 2) (nBytes + 6)) Uint32"

text \<open>
  \<^verbatim>\<open>appendValue\<close> returns the size of the payload and, since it appends through the
  pointer \<open>m\<close>, the accumulator after the call. The console messages of the binary,
  image and default branches are not part of the model.
\<close>

definition appendValue :: "stdlib \<Rightarrow> slice \<Rightarrow> uint32 \<Rightarrow> logMessageString \<Rightarrow> abort + (uint32 \<times> logMessageString)" where
  "appendValue L b nBytes m =
     andThen (index b (nBytes + 1)) (\<lambda>partType.
       if partType = PartTypeInt16 then
         andThen (subslice b (2 + nBytes) (2 + nBytes + 2)) (\<lambda>s.
         andThen (ReadInt16 s) (\<lambda>val. Inr (2, addInt16 L m val)))
       else if partType = PartTypeInt32 then
         andThen (subslice b (nBytes + 2) (nBytes + 2 + 4)) (\<lambda>s.
         andThen (ReadInt32 s) (\<lambda>val. Inr (4, addInt32 L m val)))
       else if partType = PartTypeInt64 then
         andThen (subslice b (nBytes + 2) (nBytes + 2 + 8)) (\<lambda>s.
         andThen (ReadInt64 s) (\<lambda>val. Inr (8, addInt64 L m val)))
       else if partType = PartTypeString then
         andThen (partLength b nBytes) (\<lambda>partSize.
         andThen (subslice b (nBytes + 6) (nBytes + 6 + partSize)) (\<lambda>s.
           Inr (partSize + 4, addString m s)))
       else if partType = PartTypeBinary then
         andThen (partLength b nBytes) (\<lambda>partSize. Inr (partSize + 4, m))
       else if partType = PartTypeImage then
         andThen (partLength b nBytes) (\<lambda>partSize. Inr (partSize + 4, m))
       else Inl (LogFatal ''Unkown part type''))"

definition skipPart :: "slice \<Rightarrow> uint32 \<Rightarrow> abort + uint32" where
  "skipPart b nBytes =
     andThen (index b (nBytes + 1)) (\<lambda>partType.
       if partType = PartTypeInt32 then Inr 4
       else if partType = PartTypeInt64 then Inr 8
       else if partType = PartTypeString then
         andThen (partLength b nBytes) (\<lambda>partSize. Inr (partSize + 4))
       else Inl (LogFatal ''Skipping not handled for that part type''))"

definition readDate :: "stdlib \<Rightarrow> slice \<Rightarrow> uint32 \<Rightarrow> abort + (uint32 \<times> bytes)" where
  "readDate L b nBytes =
     andThen (index b (nBytes + 1)) (\<lambda>partType.
       if partType = PartTypeInt32 then
         andThen (subslice b (nBytes + 2) (nBytes + 2 + 4)) (\<lambda>s.
         andThen (ReadInt32 s) (\<lambda>val. Inr (4, fmtInt (sint val))))
       else if partType = PartTypeInt64 then
         andThen (subslice b (nBytes + 2) (nBytes + 2 + 8)) (\<lambda>s.
         andThen (ReadInt64 s) (\<lambda>val. Inr (8, timeString L (sint val))))
       else if partType = PartTypeString then
         andThen (partLength b nBytes) (\<lambda>partSize.
         andThen (subslice b (nBytes + 6) (nBytes + 6 + partSize)) (\<lambda>stringDate.
           Inr (partSize + 4, stringDate)))
       else Inl (LogFatal ''Date can't be parsed using that part type''))"

section \<open>The frame walker \<^verbatim>\<open>NsLoggerParse\<close>\<close>

text \<open>
  The switch on the key: \<open>None\<close> is the \<^verbatim>\<open>default\<close> branch, which returns from
  \<^verbatim>\<open>NsLoggerParse\<close>; otherwise \<^verbatim>\<open>usedData\<close> and \<^verbatim>\<open>formatedValue\<close> after the switch.
\<close>

definition keySwitch :: "stdlib \<Rightarrow> slice \<Rightarrow> uint32 \<Rightarrow> byte \<Rightarrow> abort + (uint32 \<times> bytes) option" where
  "keySwitch L b nBytes key =
     (if key = PartKeyTimestampS then andThen (readDate L b nBytes) (\<lambda>r. Inr (Some r))
      else if key = PartKeyMessageSeq then andThen (skipPart b nBytes) (\<lambda>usedData. Inr (Some (usedData, [])))
      else if key \<in> set plainKeys then Inr (Some (0, []))
      else Inr None)"

text \<open>
  One turn of the inner loop, from \<^verbatim>\<open>usedData := uint32(0)\<close> to
  \<^verbatim>\<open>nBytes += (2 + usedData)\<close>: either the function returns the unknown-key error, or
  the loop goes on with a new cursor and accumulator.
\<close>

datatype partsResult = UnknownKey | Next uint32 logMessageString

definition partStep :: "stdlib \<Rightarrow> slice \<Rightarrow> uint32 \<Rightarrow> logMessageString \<Rightarrow> abort + partsResult" where
  "partStep L b nBytes m =
     andThen (index b nBytes) (\<lambda>key.
     andThen (keySwitch L b nBytes key) (\<lambda>sw.
       case sw of
         None \<Rightarrow> Inr UnknownKey
       | Some (usedData, formatedValue) \<Rightarrow>
           andThen (if usedData \<noteq> 0 then Inr (usedData, addString m formatedValue)
                    else appendValue L b nBytes m)
             (\<lambda>(usedData', m'). Inr (Next (nBytes + (2 + usedData')) m'))))"

text \<open>The inner loop \<^verbatim>\<open>for partCount > 0\<close>.\<close>

function parts :: "stdlib \<Rightarrow> slice \<Rightarrow> uint16 \<Rightarrow> uint32 \<Rightarrow> logMessageString \<Rightarrow> abort + partsResult" where
  "parts L b partCount nBytes m =
     (if partCount > 0 then
        (case partStep L b nBytes m of
           Inl a \<Rightarrow> Inl a
         | Inr UnknownKey \<Rightarrow> Inr UnknownKey
         | Inr (Next nBytes' m') \<Rightarrow> parts L b (partCount - 1) nBytes' m')
      else Inr (Next nBytes m))"
  by pat_completeness auto
termination
  by (relation "measure (\<lambda>(L, b, partCount, nBytes, m). unat partCount)")
     (auto simp: unat_minus_one word_greater_zero_iff unat_gt_0)

declare parts.simps [simp del]

text \<open>
  The body of the outer loop up to the end of the inner loop: skip the length field,
  read \<^verbatim>\<open>partCount\<close>, start an empty line and decode the parts.
\<close>

definition message :: "stdlib \<Rightarrow> slice \<Rightarrow> bytes \<Rightarrow> uint32 \<Rightarrow> abort + partsResult" where
  "message L b sep nBytes =
     andThen (andThen (subslice b (nBytes + 4) (nBytes + 4 + 2)) Uint16) (\<lambda>partCount.
       parts L b partCount (nBytes + 4 + 2) \<lparr>value = [], separator = sep\<rparr>)"

text \<open>\<^verbatim>\<open>BigEndian.Uint32(b[nBytes : nBytes+4])\<close>.\<close>

definition readTotalSize :: "slice \<Rightarrow> uint32 \<Rightarrow> abort + uint32" where
  "readTotalSize b nBytes = andThen (subslice b nBytes (nBytes + 4)) Uint32"

text \<open>
  The outer loop \<^verbatim>\<open>for nBytes+totalSize < fileSize\<close>. The cursor can wrap around and
  come back to an earlier message, so the loop need not end: it runs on fuel, one unit
  for each test of the condition, and \<open>None\<close> is a run that is still going when the
  fuel is used up. A result is the pair \<^verbatim>\<open>(string, error)\<close> that the function returns.
\<close>

fun walk :: "nat \<Rightarrow> stdlib \<Rightarrow> slice \<Rightarrow> bytes \<Rightarrow> uint32 \<Rightarrow> uint32 \<Rightarrow> bytes \<Rightarrow> (abort + bytes \<times> string option) option" where
  "walk 0 L b sep nBytes totalSize res = None"
| "walk (Suc k) L b sep nBytes totalSize res =
     (if nBytes + totalSize < fileSize b then
        (case message L b sep nBytes of
           Inl a \<Rightarrow> Some (Inl a)
         | Inr UnknownKey \<Rightarrow> Some (Inr (res, Some ''Unkown part key''))
         | Inr (Next nBytes' m) \<Rightarrow>
             (case readTotalSize b nBytes' of
                Inl a \<Rightarrow> Some (Inl a)
              | Inr totalSize' \<Rightarrow> walk k L b sep nBytes' totalSize' (res @ (String m @ ascii [CHR 0x0A]))))
      else Some (Inr (res, None)))"

definition NsLoggerParse :: "nat \<Rightarrow> stdlib \<Rightarrow> slice \<Rightarrow> bytes \<Rightarrow> (abort + bytes \<times> string option) option" where
  "NsLoggerParse fuel L b sep =
     (case readTotalSize b 0 of
        Inl a \<Rightarrow> Some (Inl a)
      | Inr totalSize \<Rightarrow> walk fuel L b sep 0 totalSize [])"

section \<open>Runs of the two loops\<close>

text \<open>
  To speak of the part or the message at which something happens: the cursor and the
  accumulator after \<open>j\<close> parts have been decoded, the state of the outer loop after \<open>i\<close>
  messages have been decoded, and the accumulators of the messages that a run decodes
  in full, in stream order. \<open>line\<close> is what the walker appends for one of them.
\<close>

fun afterParts :: "nat \<Rightarrow> stdlib \<Rightarrow> slice \<Rightarrow> uint32 \<Rightarrow> logMessageString \<Rightarrow> (uint32 \<times> logMessageString) option" where
  "afterParts 0 L b nBytes m = Some (nBytes, m)"
| "afterParts (Suc j) L b nBytes m =
     (case partStep L b nBytes m of
        Inr (Next nBytes' m') \<Rightarrow> afterParts j L b nBytes' m'
      | _ \<Rightarrow> None)"

definition line :: "logMessageString \<Rightarrow> bytes" where
  "line m = String m @ ascii [CHR 0x0A]"

fun afterMessages :: "nat \<Rightarrow> stdlib \<Rightarrow> slice \<Rightarrow> bytes \<Rightarrow> uint32 \<Rightarrow> uint32 \<Rightarrow> bytes \<Rightarrow> (uint32 \<times> uint32 \<times> bytes) option" where
  "afterMessages 0 L b sep nBytes totalSize res = Some (nBytes, totalSize, res)"
| "afterMessages (Suc i) L b sep nBytes totalSize res =
     (if nBytes + totalSize < fileSize b then
        (case message L b sep nBytes of
           Inr (Next nBytes' m) \<Rightarrow>
             (case readTotalSize b nBytes' of
                Inr totalSize' \<Rightarrow> afterMessages i L b sep nBytes' totalSize' (res @ line m)
              | Inl a \<Rightarrow> None)
         | _ \<Rightarrow> None)
      else None)"

fun decodedMessages :: "nat \<Rightarrow> stdlib \<Rightarrow> slice \<Rightarrow> bytes \<Rightarrow> uint32 \<Rightarrow> uint32 \<Rightarrow> logMessageString list" where
  "decodedMessages 0 L b sep nBytes totalSize = []"
| "decodedMessages (Suc k) L b sep nBytes totalSize =
     (if nBytes + totalSize < fileSize b then
        (case message L b sep nBytes of
           Inr (Next nBytes' m) \<Rightarrow>
             m # (case readTotalSize b nBytes' of
                    Inr totalSize' \<Rightarrow> decodedMessages k L b sep nBytes' totalSize'
                  | Inl a \<Rightarrow> [])
         | _ \<Rightarrow> [])
      else [])"

text \<open>
  An example stream of two messages: one Int16 part with key \<open>ThreadId\<close> and value 7, then
  one part with the key 99, which is not a key of the format.
\<close>

definition twoMessages :: slice where
  "twoMessages = \<lparr>store = [0, 0, 0, 6, 0, 1, 4, 2, 0, 7, 0, 0, 0, 6, 0, 1, 99, 2, 0, 7], len = 20\<rparr>"

text \<open>
  One message that ends exactly where the buffer ends, with four spare bytes of capacity.
\<close>

definition oneMessage :: slice where
  "oneMessage = \<lparr>store = [0, 0, 0, 6, 0, 1, 4, 2, 0, 7, 0, 0, 0, 0], len = 10\<rparr>"

text \<open>The same message in a buffer without spare capacity.\<close>

definition oneMessageTight :: slice where
  "oneMessageTight = \<lparr>store = [0, 0, 0, 6, 0, 1, 4, 2, 0, 7], len = 10\<rparr>"

text \<open>
  One message whose only part is of type Binary with the declared length \<open>2\<^sup>3\<^sup>2 - 12\<close>:
  the cursor after the part is 0 again.
\<close>

definition wrapAround :: slice where
  "wrapAround = \<lparr>store = [0, 0, 0, 0, 0, 1, 0, 1, 0xFF, 0xFF, 0xFF, 0xF4], len = 12\<rparr>"

text \<open>
  A first message as before, then the length field and the part count of a second one
  whose declared size reaches the end of the buffer.
\<close>

definition droppedTail :: slice where
  "droppedTail = \<lparr>store = [0, 0, 0, 6, 0, 1, 4, 2, 0, 7, 0, 0, 0, 6, 0, 1], len = 16\<rparr>"

text \<open>
  Two messages that carry a sequence number, of type Int32 and of type String, before
  their other part; four spare bytes of capacity follow the 38 bytes of the buffer.
\<close>

definition seqMessages :: slice where
  "seqMessages =
     \<lparr>store = [0, 0, 0, 12, 0, 2, 10, 3, 0, 0, 0, 1, 4, 2, 0, 7,
               0, 0, 0, 18, 0, 2, 10, 0, 0, 0, 0, 2, 97, 98, 7, 0, 0, 0, 0, 2, 104, 105,
               0, 0, 0, 0],
      len = 38\<rparr>"

text \<open>
  A part of the unknown type 9 in a second message, and a seconds timestamp of type Int16.
\<close>

definition badType :: slice where
  "badType = \<lparr>store = [0, 0, 0, 6, 0, 1, 4, 2, 0, 7, 0, 0, 0, 4, 0, 1, 7, 9, 0, 0], len = 20\<rparr>"

definition badDate :: slice where
  "badDate = \<lparr>store = [0, 0, 0, 4, 0, 1, 1, 2, 0, 0], len = 10\<rparr>"

section \<open>Basic facts\<close>

named_theorems part_consts \<open>the values of the part key and part type constants\<close>

lemmas part_key_values [part_consts] =
  PartKeyMessageType_def PartKeyTimestampS_def PartKeyTimestampMs_def PartKeyTimestampUs_def
  PartKeyThreadId_def PartKeyTag_def PartKeyLevel_def PartKeyMessage_def PartKeyImageWidth_def
  PartKeyImageHeight_def PartKeyMessageSeq_def PartKeyFilename_def PartKeyLinenumber_def
  PartKeyFunctionname_def PartKeyClientName_def PartKeyClientVersion_def PartKeyOsName_def
  PartKeyOsVersion_def PartKeyClientModel_def PartKeyUniqueid_def PartKeyUserDefined_def

lemmas part_type_values [part_consts] =
  PartTypeString_def PartTypeBinary_def PartTypeInt16_def PartTypeInt32_def PartTypeInt64_def
  PartTypeImage_def

lemma andThen_Inl [simp]: "andThen (Inl a) f = Inl a"
  by (simp add: andThen_def)

lemma andThen_Inr [simp]: "andThen (Inr v) f = f v"
  by (simp add: andThen_def)

lemma index_wf:
  "wf_slice b \<Longrightarrow> index b i = (if unat i < len b then Inr (store b ! unat i) else Inl RuntimePanic)"
  by (auto simp: index_def wf_slice_def)

lemma subslice_mid:
  "store b = xs @ ys @ zs \<Longrightarrow> length xs = unat lo \<Longrightarrow> unat hi = unat lo + length ys \<Longrightarrow>
   subslice b lo hi = Inr ys"
  by (simp add: subslice_def cap_def)

lemma be32_bytes:
  "ucast (ucast v :: byte) OR push_bit 8 (ucast (ucast (drop_bit 8 v) :: byte))
     OR push_bit 16 (ucast (ucast (drop_bit 16 v) :: byte))
     OR push_bit 24 (ucast (ucast (drop_bit 24 v) :: byte)) = (v :: uint32)" (is "?l = v")
proof (rule bit_word_eqI)
  fix n assume "n < LENGTH(32)"
  then have "n < 32" by simp
  then consider "n < 8" | "8 \<le> n" "n < 16" | "16 \<le> n" "n < 24" | "24 \<le> n" "n < 32"
    by linarith
  then show "bit ?l n = bit v n"
    by cases (auto simp add: bit_simps)
qed

lemma Uint32_PutUint32: "Uint32 (PutUint32 v @ rest) = Inr v"
  by (simp add: PutUint32_def be32_bytes)

lemma length_PutUint32: "length (PutUint32 v) = 4"
  by (simp add: PutUint32_def)

lemma unat_of_nat_eq: "n < 2 ^ 32 \<Longrightarrow> unat (of_nat n :: uint32) = n"
  by (simp add: unat_of_nat)

lemma unat_plus:
  "unat (x :: uint32) + unat y < 2 ^ 32 \<Longrightarrow> unat (x + y) = unat x + unat y"
  using unat_add_lem [of x y] by simp

lemma four_bytes: "4 \<le> length xs \<Longrightarrow> \<exists>b0 b1 b2 b3 rest. xs = b0 # b1 # b2 # b3 # rest"
  by (auto simp: Suc_le_length_iff numeral_eq_Suc)

text \<open>
  The length field at a cursor can be read exactly when the capacity reaches 4 bytes
  beyond the cursor; otherwise the slice expression panics.
\<close>

lemma readTotalSize_ok:
  assumes "unat n + 4 \<le> cap b" and "unat n + 4 < 2 ^ 32"
  shows "\<exists>t. readTotalSize b n = Inr t"
proof -
  have u: "unat (n + 4) = unat n + 4"
    using assms(2) by (simp add: unat_plus)
  have "4 \<le> length (take 4 (drop (unat n) (store b)))"
    using assms(1) by (simp add: cap_def)
  from four_bytes [OF this] obtain b0 b1 b2 b3 rest
    where "take 4 (drop (unat n) (store b)) = b0 # b1 # b2 # b3 # rest" by blast
  then show ?thesis
    using assms(1) u by (simp add: readTotalSize_def subslice_def)
qed

lemma readTotalSize_panic:
  assumes "\<not> (unat n + 4 \<le> cap b \<and> unat n + 4 < 2 ^ 32)"
  shows "readTotalSize b n = Inl RuntimePanic"
proof (cases "unat n + 4 < 2 ^ 32")
  case True
  then have "unat (n + 4) = unat n + 4" by (simp add: unat_plus)
  with assms True show ?thesis by (simp add: readTotalSize_def subslice_def)
next
  case False
  have "unat (n + 4) = (unat n + 4) mod 2 ^ 32"
    by (simp add: unat_word_ariths)
  also have "\<dots> = unat n + 4 - 2 ^ 32"
  proof -
    have "unat n < 2 ^ 32" using unsigned_less [of n] by simp
    with False have "unat n + 4 - 2 ^ 32 < (2 ^ 32 :: nat)" by simp
    with False show ?thesis
      by (metis le_add_diff_inverse2 mod_add_self2 mod_less not_less)
  qed
  finally have "unat (n + 4) < unat n" using False by simp
  then show ?thesis by (simp add: readTotalSize_def subslice_def)
qed

lemma parts_after:
  "afterParts j L b nBytes m = Some (c, m') \<Longrightarrow> j < unat partCount \<Longrightarrow>
   partStep L b c m' = r \<Longrightarrow> (\<forall>x y. r \<noteq> Inr (Next x y)) \<Longrightarrow>
   parts L b partCount nBytes m = r"
proof (induction j arbitrary: partCount nBytes m)
  case 0
  then have "partCount > 0" by (simp add: word_greater_zero_iff unat_gt_0)
  with 0 show ?case
    by (subst parts.simps) (auto split: sum.splits partsResult.splits)
next
  case (Suc j)
  from Suc.prems(2) have pos: "partCount > 0"
    by (auto simp: word_greater_zero_iff unat_gt_0 intro!: gr0I)
  then have "partCount \<noteq> 0" by auto
  then have less: "j < unat (partCount - 1)"
    using Suc.prems(2) by (simp add: unat_minus_one)
  from Suc.prems(1) obtain n1 m1 where
    step: "partStep L b nBytes m = Inr (Next n1 m1)" and rest: "afterParts j L b n1 m1 = Some (c, m')"
    by (auto split: sum.splits partsResult.splits)
  have "parts L b partCount nBytes m = parts L b (partCount - 1) n1 m1"
    using pos step by (subst parts.simps) simp
  also have "\<dots> = r"
    using Suc.IH [OF rest less Suc.prems(3) Suc.prems(4)] .
  finally show ?case .
qed

lemma walk_after:
  "afterMessages i L b sep nBytes totalSize res = Some (n', t', res') \<Longrightarrow>
   walk (i + k) L b sep nBytes totalSize res = walk k L b sep n' t' res'"
proof (induction i arbitrary: nBytes totalSize res)
  case 0
  then show ?case by simp
next
  case (Suc i)
  then show ?case
    by (auto simp: line_def split: if_splits sum.splits partsResult.splits)
qed

lemma walk_text:
  "walk k L b sep nBytes totalSize res = Some (Inr (text, e)) \<Longrightarrow>
   text = res @ concat (map line (decodedMessages k L b sep nBytes totalSize))"
proof (induction k arbitrary: nBytes totalSize res)
  case 0
  then show ?case by simp
next
  case (Suc k)
  show ?case
  proof (cases "nBytes + totalSize < fileSize b")
    case False
    with Suc.prems show ?thesis by simp
  next
    case cond: True
    show ?thesis
    proof (cases "message L b sep nBytes")
      case (Inl a)
      with cond Suc.prems show ?thesis by simp
    next
      case msg: (Inr pr)
      show ?thesis
      proof (cases pr)
        case UnknownKey
        with cond msg Suc.prems show ?thesis by simp
      next
        case (Next n1 m)
        show ?thesis
        proof (cases "readTotalSize b n1")
          case (Inl a)
          with cond msg Next Suc.prems show ?thesis by simp
        next
          case (Inr t1)
          with cond msg Next Suc.prems
          have "walk k L b sep n1 t1 (res @ line m) = Some (Inr (text, e))"
            by (simp add: line_def)
          from Suc.IH [OF this] show ?thesis
            using cond msg Next Inr by simp
        qed
      qed
    qed
  qed
qed

lemma walk_error:
  "walk k L b sep nBytes totalSize res = Some (Inr (text, Some e)) \<Longrightarrow> e = ''Unkown part key''"
proof (induction k arbitrary: nBytes totalSize res)
  case 0
  then show ?case by simp
next
  case (Suc k)
  then show ?case
    by (fastforce split: if_splits sum.splits partsResult.splits)
qed

lemma afterMessages_text:
  "afterMessages i L b sep nBytes totalSize res = Some (n', t', res') \<Longrightarrow>
   res' = res @ concat (map line (decodedMessages i L b sep nBytes totalSize)) \<and>
   length (decodedMessages i L b sep nBytes totalSize) = i"
proof (induction i arbitrary: nBytes totalSize res)
  case 0
  then show ?case by simp
next
  case (Suc i)
  from Suc.prems obtain n1 m t1 where
    cond: "nBytes + totalSize < fileSize b" and msg: "message L b sep nBytes = Inr (Next n1 m)"
    and tot: "readTotalSize b n1 = Inr t1"
    and rest: "afterMessages i L b sep n1 t1 (res @ line m) = Some (n', t', res')"
    by (auto split: if_splits sum.splits partsResult.splits)
  from Suc.IH [OF rest] show ?case
    using cond msg tot by simp
qed

lemma message_parts:
  "andThen (subslice b (nBytes + 4) (nBytes + 4 + 2)) Uint16 = Inr partCount \<Longrightarrow>
   message L b sep nBytes = parts L b partCount (nBytes + 4 + 2) \<lparr>value = [], separator = sep\<rparr>"
  by (simp add: message_def)

lemma NsLoggerParse_after:
  "readTotalSize b 0 = Inr t0 \<Longrightarrow> afterMessages i L b sep 0 t0 [] = Some (n', t', res') \<Longrightarrow>
   NsLoggerParse (i + k) L b sep = walk k L b sep n' t' res'"
  by (simp add: NsLoggerParse_def walk_after)

lemma test_lt_exact:
  assumes "unat nBytes + unat totalSize < 2 ^ 32" and "len b < 2 ^ 32"
  shows "nBytes + totalSize < fileSize b \<longleftrightarrow> unat nBytes + unat totalSize < len b"
proof -
  have "unat (nBytes + totalSize) = unat nBytes + unat totalSize"
    using assms(1) by (simp add: unat_plus)
  moreover have "unat (fileSize b) = len b"
    using assms(2) by (simp add: fileSize_def unat_of_nat_eq)
  ultimately show ?thesis by (simp add: word_less_nat_alt)
qed

lemma exact_fill_passes:
  assumes "unat nBytes + 4 + unat totalSize = len b" and "len b < 2 ^ 32"
  shows "nBytes + totalSize < fileSize b"
proof -
  from assms have "unat nBytes + unat totalSize < 2 ^ 32" by simp
  from test_lt_exact [OF this assms(2)] assms(1) show ?thesis by simp
qed

lemma afterMessages_add:
  "afterMessages i L b sep nBytes totalSize res = Some (n', t', res') \<Longrightarrow>
   afterMessages (i + j) L b sep nBytes totalSize res = afterMessages j L b sep n' t' res'"
proof (induction i arbitrary: nBytes totalSize res)
  case 0
  then show ?case by simp
next
  case (Suc i)
  then show ?case
    by (auto split: if_splits sum.splits partsResult.splits)
qed

lemma abort_in_part:
  assumes start: "readTotalSize b 0 = Inr t0"
    and before: "afterMessages i L b sep 0 t0 [] = Some (nBytes, totalSize, res)"
    and cond: "nBytes + totalSize < fileSize b"
    and count: "andThen (subslice b (nBytes + 4) (nBytes + 4 + 2)) Uint16 = Inr partCount"
    and pos: "j < unat partCount"
    and reach: "afterParts j L b (nBytes + 4 + 2) \<lparr>value = [], separator = sep\<rparr> = Some (c, m)"
    and stop: "partStep L b c m = Inl a"
  shows "NsLoggerParse (i + Suc k) L b sep = Some (Inl a)"
proof -
  from reach pos stop
  have "parts L b partCount (nBytes + 4 + 2) \<lparr>value = [], separator = sep\<rparr> = Inl a"
    by (auto intro: parts_after)
  with count have "message L b sep nBytes = Inl a"
    by (simp add: message_parts)
  with cond have "walk (Suc k) L b sep nBytes totalSize res = Some (Inl a)"
    by simp
  with NsLoggerParse_after [OF start before, of "Suc k"] show ?thesis by simp
qed

lemmas run_defs =
  NsLoggerParse_def readTotalSize_def subslice_def cap_def fileSize_def message_def parts.simps
  partStep_def index_def keySwitch_def plainKeys_def part_consts appendValue_def skipPart_def
  readDate_def partLength_def ReadInt16_def ReadInt32_def ReadInt64_def addInt16_def addInt32_def
  addInt64_def addString_def Sprintf_v_def fmtInt_def digits.simps lib0_def ascii_def String_def
  line_def recognizedKey_def

section \<open>The outer loop need not end\<close>

text \<open>
  On \<open>wrapAround\<close> the cursor comes back to 0 after the first message, where the same
  \<^verbatim>\<open>totalSize\<close> is read again: the call never returns, whatever the fuel.
\<close>

lemma wrapAround_message:
  "message L wrapAround sep 0 = Inr (Next 0 \<lparr>value = [], separator = sep\<rparr>)"
  by (simp add: wrapAround_def message_def subslice_def cap_def parts.simps partStep_def index_def
      keySwitch_def plainKeys_def part_consts appendValue_def partLength_def)

lemma wrapAround_walk: "walk k L wrapAround sep 0 0 res = None"
proof (induction k arbitrary: res)
  case 0
  show ?case by simp
next
  case (Suc k)
  have "(0 :: uint32) + 0 < fileSize wrapAround"
    by (simp add: wrapAround_def fileSize_def)
  moreover have "readTotalSize wrapAround 0 = Inr 0"
    by (simp add: wrapAround_def readTotalSize_def subslice_def cap_def)
  ultimately show ?case
    using Suc.IH by (simp add: wrapAround_message)
qed

lemma NsLoggerParse_need_not_return: "NsLoggerParse fuel L wrapAround sep = None"
proof -
  have "readTotalSize wrapAround 0 = Inr 0"
    by (simp add: wrapAround_def readTotalSize_def subslice_def cap_def)
  then show ?thesis by (simp add: NsLoggerParse_def wrapAround_walk)
qed

section \<open>The record accumulator\<close>

lemma addString_empty: "addString t [] = t"
  by (simp add: addString_def)

lemma addString_nonempty: "v \<noteq> [] \<Longrightarrow> value (addString t v) = value t @ v @ separator t"
  by (simp add: addString_def)

text \<open>A separator without a \<^verbatim>\<open>%\<close> byte comes out of the format as it is.\<close>

lemma fmtTail_plain: "37 \<notin> set sep \<Longrightarrow> fmtTail L v sep = sep"
  by (induction L v sep rule: fmtTail.induct) auto

lemma addInt16_plain:
  "37 \<notin> set (separator t) \<Longrightarrow> value (addInt16 L t v) = value t @ fmtInt (sint v) @ separator t"
  by (simp add: addInt16_def Sprintf_v_def fmtTail_plain)

lemma addInt32_plain:
  "37 \<notin> set (separator t) \<Longrightarrow> value (addInt32 L t v) = value t @ fmtInt (sint v) @ separator t"
  by (simp add: addInt32_def Sprintf_v_def fmtTail_plain)

lemma addInt64_plain:
  "37 \<notin> set (separator t) \<Longrightarrow> value (addInt64 L t v) = value t @ fmtInt (sint v) @ separator t"
  by (simp add: addInt64_def Sprintf_v_def fmtTail_plain)

lemma fmtInt_0: "fmtInt 0 = ascii ''0''"
  by (simp add: fmtInt_def digits.simps ascii_def)

text \<open>
  Claim C8. The accumulator leaves the line unchanged for an empty string, and a numeric
  field is to append its decimal digits and then the separator. \<open>addString\<close> appends the
  separator itself, but the integer methods put it into the format string of
  \<^verbatim>\<open>fmt.Sprintf\<close>: with the separator \<^verbatim>\<open>%\<close> and the value 0 the line becomes
  \<^verbatim>\<open>0%!(NOVERB)\<close>, not \<^verbatim>\<open>0%\<close>.
\<close>

theorem addInt32_separator_in_format:
  "value (addInt32 L \<lparr>value = [], separator = ascii ''%''\<rparr> 0) = ascii ''0%!(NOVERB)'' \<and>
   value (addInt32 L \<lparr>value = [], separator = ascii ''%''\<rparr> 0)
     \<noteq> [] @ fmtInt (sint (0 :: uint32)) @ ascii ''%''"
  by (simp add: addInt32_def Sprintf_v_def fmtInt_def digits.simps ascii_def)

section \<open>The seconds timestamp\<close>

lemma readDate_int32:
  "index b (c + 1) = Inr PartTypeInt32 \<Longrightarrow> subslice b (c + 2) (c + 2 + 4) = Inr s \<Longrightarrow>
   ReadInt32 s = Inr v \<Longrightarrow> readDate L b c = Inr (4, fmtInt (sint v))"
  by (simp add: readDate_def)

lemma readDate_int64:
  "index b (c + 1) = Inr PartTypeInt64 \<Longrightarrow> subslice b (c + 2) (c + 2 + 8) = Inr s \<Longrightarrow>
   ReadInt64 s = Inr v \<Longrightarrow> readDate L b c = Inr (8, timeString L (sint v))"
  by (simp add: readDate_def part_consts)

lemma readDate_string:
  "index b (c + 1) = Inr PartTypeString \<Longrightarrow> partLength b c = Inr n \<Longrightarrow>
   subslice b (c + 6) (c + 6 + n) = Inr s \<Longrightarrow> readDate L b c = Inr (n + 4, s)"
  by (simp add: readDate_def part_consts)

text \<open>
  Claim C2. A \<open>TimestampS\<close> part of type Int32 or Int64 is to be rendered as a date and
  time. \<open>readDate\<close> does so for Int64 only; for Int32 it prints the number: the part
  \<^verbatim>\<open>01 03 65 53 F1 00\<close> (1700000000 seconds) gives the text \<^verbatim>\<open>1700000000\<close>, whatever
  the time formatting of the library is.
\<close>

theorem readDate_int32_decimal:
  "readDate L \<lparr>store = [1, 3, 0x65, 0x53, 0xF1, 0x00], len = 6\<rparr> 0 = Inr (4, ascii ''1700000000'')"
  by (simp add: readDate_def index_def subslice_def cap_def ReadInt32_def part_consts fmtInt_def
      digits.simps ascii_def)

section \<open>Decoding by type\<close>

text \<open>
  Claim C6. A string part round-trips: for every byte string \<open>d\<close>, also the empty one,
  a part made of a key, the type String, the 4-byte big-endian length of \<open>d\<close> and \<open>d\<close>
  itself decodes to exactly \<open>d\<close> (the bytes handed to \<open>addString\<close>), and the payload size
  returned is \<open>4 + length d\<close>; under a key that is decoded by type the inner loop moves
  the cursor on by \<open>2 + 4 + length d\<close>. The part lies at a cursor and has a length that
  fit the 32-bit cursor, and its type byte is inside the length of the buffer.
\<close>

theorem string_round_trip:
  assumes st: "store b = pre @ [key, PartTypeString] @ PutUint32 (of_nat (length d)) @ d @ post"
    and bound: "length pre + 6 + length d < 2 ^ 32"
    and cur: "nBytes = of_nat (length pre)"
    and inb: "length pre + 1 < len b"
  shows "partLength b nBytes = Inr (of_nat (length d)) \<and>
         subslice b (nBytes + 6) (nBytes + 6 + of_nat (length d)) = Inr d \<and>
         appendValue L b nBytes m = Inr (of_nat (4 + length d), addString m d) \<and>
         unat (of_nat (4 + length d) :: uint32) = 4 + length d \<and>
         (key \<in> set plainKeys \<longrightarrow>
            partStep L b nBytes m = Inr (Next (nBytes + (2 + of_nat (4 + length d))) (addString m d)) \<and>
            unat (nBytes + (2 + of_nat (4 + length d))) = length pre + (2 + (4 + length d)))"
proof -
  let ?n = "of_nat (length d) :: uint32"
  have un: "unat nBytes = length pre"
    using bound cur by (simp add: unat_of_nat_eq)
  have ud: "unat ?n = length d"
    using bound by (simp add: unat_of_nat_eq)
  have u1: "unat (nBytes + 1) = length pre + 1"
    using un bound by (simp add: unat_plus)
  have u2: "unat (nBytes + 2) = length pre + 2"
    using un bound by (simp add: unat_plus)
  have u6: "unat (nBytes + 6) = length pre + 6"
    using un bound by (simp add: unat_plus)
  have u6n: "unat (nBytes + 6 + ?n) = length pre + 6 + length d"
    using u6 ud bound by (simp add: unat_plus)
  have ty: "index b (nBytes + 1) = Inr PartTypeString"
    using st inb u1 by (simp add: index_def cap_def nth_append)
  have "subslice b (nBytes + 2) (nBytes + 6) = Inr (PutUint32 ?n)"
  proof (rule subslice_mid)
    show "store b = (pre @ [key, PartTypeString]) @ PutUint32 ?n @ (d @ post)"
      using st by simp
  qed (simp_all add: u2 u6 length_PutUint32)
  then have pl: "partLength b nBytes = Inr ?n"
    using Uint32_PutUint32 [of ?n "[]"] by (simp add: partLength_def)
  have sd: "subslice b (nBytes + 6) (nBytes + 6 + ?n) = Inr d"
  proof (rule subslice_mid)
    show "store b = (pre @ [key, PartTypeString] @ PutUint32 ?n) @ d @ post"
      using st by simp
  qed (simp_all add: u6 u6n length_PutUint32)
  have av: "appendValue L b nBytes m = Inr (of_nat (4 + length d), addString m d)"
    using ty pl sd by (simp add: appendValue_def part_consts)
  have sz: "unat (of_nat (4 + length d) :: uint32) = 4 + length d"
    using bound ud by (simp add: unat_plus)
  have ky: "index b nBytes = Inr key"
    using st inb un by (simp add: index_def cap_def nth_append)
  have step: "partStep L b nBytes m = Inr (Next (nBytes + (2 + of_nat (4 + length d))) (addString m d))"
    if "key \<in> set plainKeys"
  proof -
    from that have "keySwitch L b nBytes key = Inr (Some (0, []))"
      by (auto simp: keySwitch_def plainKeys_def part_consts)
    with ky av show ?thesis by (simp add: partStep_def)
  qed
  have "unat (2 + of_nat (4 + length d) :: uint32) = 2 + (4 + length d)"
    using ud bound by (simp add: unat_plus)
  then have adv: "unat (nBytes + (2 + of_nat (4 + length d))) = length pre + (2 + (4 + length d))"
    using un bound by (simp add: unat_plus)
  from pl sd av sz step adv show ?thesis by blast
qed

theorem string_round_trip_witness:
  "appendValue lib0 \<lparr>store = [7, 0, 0, 0, 0, 2, 104, 105], len = 8\<rparr> 0 \<lparr>value = [], separator = [44]\<rparr>
     = Inr (6, \<lparr>value = [104, 105, 44], separator = [44]\<rparr>) \<and>
   appendValue lib0 \<lparr>store = [7, 0, 0, 0, 0, 0], len = 6\<rparr> 0 \<lparr>value = [], separator = [44]\<rparr>
     = Inr (4, \<lparr>value = [], separator = [44]\<rparr>) \<and>
   partStep lib0 \<lparr>store = [7, 0, 0, 0, 0, 2, 104, 105], len = 8\<rparr> 0 \<lparr>value = [], separator = [44]\<rparr>
     = Inr (Next 8 \<lparr>value = [104, 105, 44], separator = [44]\<rparr>)"
proof -
  have a: "store \<lparr>store = [7, 0, 0, 0, 0, 2, 104, 105], len = 8\<rparr>
      = [] @ [7, PartTypeString] @ PutUint32 (of_nat (length [104, 105 :: byte])) @ [104, 105] @ []"
    by (simp add: PutUint32_def part_consts)
  have b: "store \<lparr>store = [7, 0, 0, 0, 0, 0], len = 6\<rparr>
      = [] @ [7, PartTypeString] @ PutUint32 (of_nat (length ([] :: bytes))) @ [] @ []"
    by (simp add: PutUint32_def part_consts)
  from string_round_trip [OF a, of 0 lib0 "\<lparr>value = [], separator = [44]\<rparr>"]
       string_round_trip [OF b, of 0 lib0 "\<lparr>value = [], separator = [44]\<rparr>"]
  show ?thesis by (simp add: addString_def plainKeys_def part_consts)
qed

text \<open>
  Claim C7, as the code has it. For a part of type Binary or Image whose length field
  holds \<open>n\<close>, also \<open>n = 0\<close>, whatever follows the length field in the buffer:
  \<open>appendValue\<close> reads \<open>n\<close>, returns the payload size \<open>n + 4\<close> and leaves the accumulator
  as it was; the payload itself is never read. Under a key that is decoded by type the
  cursor moves on by \<open>2 + (n + 4)\<close>, in 32-bit arithmetic, which is the exact number of
  bytes as long as the end of the part fits in 32 bits. Under the keys \<open>TimestampS\<close>
  and \<open>MessageSeq\<close> the part does not come to \<open>appendValue\<close>: \<open>readDate\<close> and \<open>skipPart\<close>
  have no case for these types and end the process.
\<close>

theorem binary_image_skipped:
  assumes st: "store b = pre @ [key, partType] @ PutUint32 n @ post"
    and cur: "nBytes = of_nat (length pre)"
    and bound: "length pre + 6 < 2 ^ 32"
    and inb: "length pre + 1 < len b"
    and ty: "partType = PartTypeBinary \<or> partType = PartTypeImage"
  shows "partLength b nBytes = Inr n \<and>
         appendValue L b nBytes m = Inr (n + 4, m) \<and>
         (key \<in> set plainKeys \<longrightarrow>
            partStep L b nBytes m = Inr (Next (nBytes + (2 + (n + 4))) m)) \<and>
         (unat nBytes + 6 + unat n < 2 ^ 32 \<longrightarrow>
            unat (nBytes + (2 + (n + 4))) = unat nBytes + 2 + (4 + unat n)) \<and>
         (key = PartKeyTimestampS \<longrightarrow>
            partStep L b nBytes m = Inl (LogFatal ''Date can't be parsed using that part type'')) \<and>
         (key = PartKeyMessageSeq \<longrightarrow>
            partStep L b nBytes m = Inl (LogFatal ''Skipping not handled for that part type''))"
proof -
  have un: "unat nBytes = length pre"
    using bound cur by (simp add: unat_of_nat_eq)
  have u1: "unat (nBytes + 1) = length pre + 1"
    using un bound by (simp add: unat_plus)
  have u2: "unat (nBytes + 2) = length pre + 2"
    using un bound by (simp add: unat_plus)
  have u6: "unat (nBytes + 6) = length pre + 6"
    using un bound by (simp add: unat_plus)
  have ky: "index b nBytes = Inr key"
    using st inb un by (simp add: index_def cap_def nth_append)
  have tb: "index b (nBytes + 1) = Inr partType"
    using st inb u1 by (simp add: index_def cap_def nth_append)
  have "subslice b (nBytes + 2) (nBytes + 6) = Inr (PutUint32 n)"
  proof (rule subslice_mid)
    show "store b = (pre @ [key, partType]) @ PutUint32 n @ post"
      using st by simp
  qed (simp_all add: u2 u6 length_PutUint32)
  then have pl: "partLength b nBytes = Inr n"
    using Uint32_PutUint32 [of n "[]"] by (simp add: partLength_def)
  have av: "appendValue L b nBytes m = Inr (n + 4, m)"
    using tb ty pl by (auto simp: appendValue_def part_consts)
  have step: "partStep L b nBytes m = Inr (Next (nBytes + (2 + (n + 4))) m)"
    if "key \<in> set plainKeys"
  proof -
    from that have "keySwitch L b nBytes key = Inr (Some (0, []))"
      by (auto simp: keySwitch_def plainKeys_def part_consts)
    with ky av show ?thesis by (simp add: partStep_def)
  qed
  have adv: "unat (nBytes + (2 + (n + 4))) = unat nBytes + 2 + (4 + unat n)"
    if "unat nBytes + 6 + unat n < 2 ^ 32"
  proof -
    have "unat (n + 4) = unat n + 4" using that by (simp add: unat_plus)
    then have "unat (2 + (n + 4)) = 2 + (unat n + 4)" using that by (simp add: unat_plus)
    then show ?thesis using that by (simp add: unat_plus)
  qed
  have date: "partStep L b nBytes m = Inl (LogFatal ''Date can't be parsed using that part type'')"
    if "key = PartKeyTimestampS"
  proof -
    from tb ty have "readDate L b nBytes = Inl (LogFatal ''Date can't be parsed using that part type'')"
      by (auto simp: readDate_def part_consts)
    with ky that show ?thesis by (simp add: partStep_def keySwitch_def)
  qed
  have seq: "partStep L b nBytes m = Inl (LogFatal ''Skipping not handled for that part type'')"
    if "key = PartKeyMessageSeq"
  proof -
    from tb ty have "skipPart b nBytes = Inl (LogFatal ''Skipping not handled for that part type'')"
      by (auto simp: skipPart_def part_consts)
    with ky that show ?thesis by (simp add: partStep_def keySwitch_def part_consts)
  qed
  from pl av step adv date seq show ?thesis by blast
qed

text \<open>An empty image under the key \<open>TimestampS\<close>: the process exits.\<close>

theorem image_timestamp_exits:
  "NsLoggerParse (Suc 0) lib0 \<lparr>store = [0, 0, 0, 8, 0, 1, 1, 5, 0, 0, 0, 0], len = 12\<rparr> [44]
     = Some (Inl (LogFatal ''Date can't be parsed using that part type''))"
  by (simp add: run_defs)

theorem binary_image_skipped_witness:
  "partLength \<lparr>store = [7, 1, 0, 0, 0, 3, 9, 9, 9], len = 9\<rparr> 0 = Inr 3 \<and>
   appendValue lib0 \<lparr>store = [7, 1, 0, 0, 0, 3, 9, 9, 9], len = 9\<rparr> 0 \<lparr>value = [], separator = [44]\<rparr>
     = Inr (7, \<lparr>value = [], separator = [44]\<rparr>) \<and>
   partStep lib0 \<lparr>store = [7, 1, 0, 0, 0, 3, 9, 9, 9], len = 9\<rparr> 0 \<lparr>value = [], separator = [44]\<rparr>
     = Inr (Next 9 \<lparr>value = [], separator = [44]\<rparr>) \<and>
   partStep lib0 \<lparr>store = [7, 5, 0, 0, 0, 0], len = 6\<rparr> 0 \<lparr>value = [], separator = [44]\<rparr>
     = Inr (Next 6 \<lparr>value = [], separator = [44]\<rparr>) \<and>
   partStep lib0 \<lparr>store = [7, 1, 0, 0, 0, 3], len = 6\<rparr> 0 \<lparr>value = [], separator = [44]\<rparr>
     = Inr (Next 9 \<lparr>value = [], separator = [44]\<rparr>) \<and>
   partStep lib0 \<lparr>store = [1, 5, 0, 0, 0, 0], len = 6\<rparr> 0 \<lparr>value = [], separator = [44]\<rparr>
     = Inl (LogFatal ''Date can't be parsed using that part type'') \<and>
   partStep lib0 \<lparr>store = [10, 1, 0, 0, 0, 3, 9, 9, 9], len = 9\<rparr> 0 \<lparr>value = [], separator = [44]\<rparr>
     = Inl (LogFatal ''Skipping not handled for that part type'')"
proof -
  have a: "store \<lparr>store = [7, 1, 0, 0, 0, 3, 9, 9, 9], len = 9\<rparr>
      = [] @ [7, PartTypeBinary] @ PutUint32 3 @ [9, 9, 9]"
    and b: "store \<lparr>store = [7, 5, 0, 0, 0, 0], len = 6\<rparr> = [] @ [7, PartTypeImage] @ PutUint32 0 @ []"
    and e: "store \<lparr>store = [7, 1, 0, 0, 0, 3], len = 6\<rparr> = [] @ [7, PartTypeBinary] @ PutUint32 3 @ []"
    and c: "store \<lparr>store = [1, 5, 0, 0, 0, 0], len = 6\<rparr>
      = [] @ [PartKeyTimestampS, PartTypeImage] @ PutUint32 0 @ []"
    and d: "store \<lparr>store = [10, 1, 0, 0, 0, 3, 9, 9, 9], len = 9\<rparr>
      = [] @ [PartKeyMessageSeq, PartTypeBinary] @ PutUint32 3 @ [9, 9, 9]"
    by (simp_all add: PutUint32_def part_consts)
  from binary_image_skipped [OF a, of 0 lib0 "\<lparr>value = [], separator = [44]\<rparr>"]
       binary_image_skipped [OF b, of 0 lib0 "\<lparr>value = [], separator = [44]\<rparr>"]
       binary_image_skipped [OF e, of 0 lib0 "\<lparr>value = [], separator = [44]\<rparr>"]
       binary_image_skipped [OF c, of 0 lib0 "\<lparr>value = [], separator = [44]\<rparr>"]
       binary_image_skipped [OF d, of 0 lib0 "\<lparr>value = [], separator = [44]\<rparr>"]
  show ?thesis by (simp add: plainKeys_def part_consts)
qed

section \<open>Unknown part keys\<close>

lemma partStep_unknown_key:
  "index b c = Inr key \<Longrightarrow> \<not> recognizedKey key \<Longrightarrow> partStep L b c m = Inr UnknownKey"
  by (simp add: partStep_def keySwitch_def recognizedKey_def)

text \<open>The recognized keys are 0 to 13 and 20 to 25.\<close>

lemma byte_cases:
  "unat (key :: byte) = n \<Longrightarrow> key = of_nat n"
  by auto

lemma recognizedKey_range:
  "recognizedKey key \<longleftrightarrow> unat key \<le> 13 \<or> (20 \<le> unat key \<and> unat key \<le> 25)"
proof
  assume "recognizedKey key"
  then show "unat key \<le> 13 \<or> (20 \<le> unat key \<and> unat key \<le> 25)"
    by (auto simp: recognizedKey_def plainKeys_def part_consts)
next
  assume "unat key \<le> 13 \<or> (20 \<le> unat key \<and> unat key \<le> 25)"
  then have "unat key \<in> {0, 1, 2, 3, 4, 5, 6, 7, 8, 9, 10, 11, 12, 13, 20, 21, 22, 23, 24, 25}"
    by (simp only: insert_iff empty_iff) arith
  then have "key \<in> of_nat ` {0, 1, 2, 3, 4, 5, 6, 7, 8, 9, 10, 11, 12, 13, 20, 21, 22, 23, 24, 25}"
    using byte_cases [of key] by blast
  then show "recognizedKey key"
    by (auto simp: recognizedKey_def plainKeys_def part_consts)
qed

lemma user_keys_unrecognized: "100 \<le> key \<Longrightarrow> \<not> recognizedKey key"
  by (auto simp: recognizedKey_def plainKeys_def part_consts word_le_nat_alt)

text \<open>
  Claim C5. Whenever the decoder comes to a part whose key byte is outside the recognized
  set (keys from 100 on included), at any position \<open>j\<close> of any message of the stream,
  \<open>NsLoggerParse\<close> returns the error \<^verbatim>\<open>Unkown part key\<close> at once, whatever follows in
  the buffer and however much fuel is left; the text it returns is the text of the \<open>i\<close>
  messages decoded before, so the message with the offending part has no line.
\<close>

theorem unknown_key_aborts:
  assumes start: "readTotalSize b 0 = Inr t0"
    and before: "afterMessages i L b sep 0 t0 [] = Some (nBytes, totalSize, res)"
    and cond: "nBytes + totalSize < fileSize b"
    and count: "andThen (subslice b (nBytes + 4) (nBytes + 4 + 2)) Uint16 = Inr partCount"
    and pos: "j < unat partCount"
    and reach: "afterParts j L b (nBytes + 4 + 2) \<lparr>value = [], separator = sep\<rparr> = Some (c, m)"
    and key: "index b c = Inr key"
    and unknown: "\<not> recognizedKey key \<or> 100 \<le> key"
  shows "NsLoggerParse (i + Suc k) L b sep = Some (Inr (res, Some ''Unkown part key'')) \<and>
         res = concat (map line (decodedMessages i L b sep 0 t0)) \<and>
         length (decodedMessages i L b sep 0 t0) = i"
proof -
  from unknown have "\<not> recognizedKey key"
    using user_keys_unrecognized by blast
  with key have "partStep L b c m = Inr UnknownKey"
    by (rule partStep_unknown_key)
  with reach pos have "parts L b partCount (nBytes + 4 + 2) \<lparr>value = [], separator = sep\<rparr> = Inr UnknownKey"
    by (auto intro: parts_after)
  with count have "message L b sep nBytes = Inr UnknownKey"
    by (simp add: message_parts)
  with cond have "walk (Suc k) L b sep nBytes totalSize res = Some (Inr (res, Some ''Unkown part key''))"
    by simp
  with NsLoggerParse_after [OF start before, of "Suc k"] afterMessages_text [OF before]
  show ?thesis by simp
qed

theorem unknown_key_aborts_witness:
  "NsLoggerParse (1 + Suc 0) lib0 twoMessages [44] = Some (Inr ([55, 44, 10], Some ''Unkown part key'')) \<and>
   decodedMessages 1 lib0 twoMessages [44] 0 6 = [\<lparr>value = [55, 44], separator = [44]\<rparr>]"
proof -
  have start: "readTotalSize twoMessages 0 = Inr 6"
    by (simp add: twoMessages_def run_defs)
  have before: "afterMessages 1 lib0 twoMessages [44] 0 6 [] = Some (10, 6, [55, 44, 10])"
    by (simp add: twoMessages_def run_defs)
  have cond: "(10 :: uint32) + 6 < fileSize twoMessages"
    by (simp add: twoMessages_def run_defs)
  have count: "andThen (subslice twoMessages (10 + 4) (10 + 4 + 2)) Uint16 = Inr 1"
    by (simp add: twoMessages_def run_defs)
  have pos: "0 < unat (1 :: uint16)" by simp
  have reach: "afterParts 0 lib0 twoMessages (10 + 4 + 2) \<lparr>value = [], separator = [44]\<rparr>
      = Some (16, \<lparr>value = [], separator = [44]\<rparr>)"
    by simp
  have key: "index twoMessages 16 = Inr 99"
    by (simp add: twoMessages_def run_defs)
  have unknown: "\<not> recognizedKey 99 \<or> (100 :: byte) \<le> 99"
    by (simp add: run_defs)
  have dec: "decodedMessages 1 lib0 twoMessages [44] 0 6 = [\<lparr>value = [55, 44], separator = [44]\<rparr>]"
    by (simp add: twoMessages_def run_defs)
  from unknown_key_aborts [OF start before cond count pos reach key unknown, of 0] dec
  show ?thesis by simp
qed

text \<open>
  Claim C10. Whenever \<open>NsLoggerParse\<close> returns an error, it is the unknown-key error, and
  the text returned with it is, in stream order, one line for every message decoded in
  full before the offending part: the rendered record followed by the line terminator.
\<close>

theorem unknown_key_keeps_text:
  assumes "NsLoggerParse fuel L b sep = Some (Inr (text, Some e))"
  shows "e = ''Unkown part key'' \<and>
         (\<exists>t0. readTotalSize b 0 = Inr t0 \<and>
            text = concat (map (\<lambda>m. String m @ ascii [CHR 0x0A]) (decodedMessages fuel L b sep 0 t0)))"
proof -
  from assms obtain t0 where t0: "readTotalSize b 0 = Inr t0"
    and w: "walk fuel L b sep 0 t0 [] = Some (Inr (text, Some e))"
    by (auto simp: NsLoggerParse_def split: sum.splits)
  from walk_error [OF w] walk_text [OF w] t0 show ?thesis
    by (auto simp: line_def fun_eq_iff cong: map_cong)
qed

theorem unknown_key_keeps_text_witness:
  "NsLoggerParse (Suc (Suc 0)) lib0 twoMessages [44] = Some (Inr ([55, 44, 10], Some ''Unkown part key'')) \<and>
   readTotalSize twoMessages 0 = Inr 6 \<and>
   [55, 44, 10] = concat (map (\<lambda>m. String m @ ascii [CHR 0x0A]) (decodedMessages (Suc (Suc 0)) lib0 twoMessages [44] 0 6))"
proof -
  have run: "NsLoggerParse (Suc (Suc 0)) lib0 twoMessages [44] = Some (Inr ([55, 44, 10], Some ''Unkown part key''))"
    by (simp add: twoMessages_def run_defs)
  from unknown_key_keeps_text [OF run] run show ?thesis
    by (auto simp: twoMessages_def readTotalSize_def subslice_def cap_def)
qed

section \<open>Short buffers\<close>

lemma readTotalSize_short: "cap b < 4 \<Longrightarrow> readTotalSize b 0 = Inl RuntimePanic"
  by (simp add: readTotalSize_def subslice_def)

lemma readTotalSize_start:
  assumes "4 \<le> cap b"
  shows "\<exists>t. readTotalSize b 0 = Inr t"
proof -
  from assms have "4 \<le> length (store b)" by (simp add: cap_def)
  then obtain b0 b1 b2 b3 rest where "store b = b0 # b1 # b2 # b3 # rest"
    using four_bytes by blast
  then show ?thesis using assms
    by (simp add: readTotalSize_def subslice_def)
qed

text \<open>
  Claim C9, as the code has it. The decoder has no check of the buffer against the sizes
  it reads and no truncation error. A buffer whose capacity is under 4 bytes makes the
  first slice expression \<^verbatim>\<open>b[0:4]\<close> panic. With a capacity of 4 or more the first
  \<^verbatim>\<open>totalSize\<close> is read (from the spare capacity when the buffer is shorter), and when
  the length of the buffer is not more than it, in particular for an empty buffer, the
  result is the empty text and no error.
\<close>

theorem short_buffer:
  "(cap b < 4 \<longrightarrow> NsLoggerParse fuel L b sep = Some (Inl RuntimePanic)) \<and>
   (4 \<le> cap b \<longrightarrow>
      (\<exists>t. readTotalSize b 0 = Inr t \<and>
         (fileSize b \<le> t \<longrightarrow> NsLoggerParse (Suc fuel) L b sep = Some (Inr ([], None))))) \<and>
   (4 \<le> cap b \<longrightarrow> len b = 0 \<longrightarrow> NsLoggerParse (Suc fuel) L b sep = Some (Inr ([], None)))"
proof (intro conjI impI)
  show "NsLoggerParse fuel L b sep = Some (Inl RuntimePanic)" if "cap b < 4"
    using that by (simp add: NsLoggerParse_def readTotalSize_short)
  show "\<exists>t. readTotalSize b 0 = Inr t \<and>
         (fileSize b \<le> t \<longrightarrow> NsLoggerParse (Suc fuel) L b sep = Some (Inr ([], None)))"
    if "4 \<le> cap b"
  proof -
    from readTotalSize_start [OF that] obtain t where t: "readTotalSize b 0 = Inr t" ..
    then show ?thesis by (auto simp: NsLoggerParse_def not_less [symmetric])
  qed
  show "NsLoggerParse (Suc fuel) L b sep = Some (Inr ([], None))" if "4 \<le> cap b" "len b = 0"
  proof -
    from readTotalSize_start [OF that(1)] obtain t where t: "readTotalSize b 0 = Inr t" ..
    then show ?thesis using that(2) by (simp add: NsLoggerParse_def fileSize_def)
  qed
qed

text \<open>The empty buffer without spare capacity: the call panics.\<close>

theorem empty_buffer_panics:
  "NsLoggerParse 1 lib0 \<lparr>store = [], len = 0\<rparr> [44] = Some (Inl RuntimePanic)"
  by (simp add: NsLoggerParse_def readTotalSize_def subslice_def cap_def)

theorem short_buffer_witness:
  "cap \<lparr>store = [], len = 0\<rparr> < 4 \<and>
   NsLoggerParse 5 lib0 \<lparr>store = [], len = 0\<rparr> [44] = Some (Inl RuntimePanic) \<and>
   4 \<le> cap \<lparr>store = [0, 0, 0, 0], len = 0\<rparr> \<and>
   NsLoggerParse (Suc 0) lib0 \<lparr>store = [0, 0, 0, 0], len = 0\<rparr> [44] = Some (Inr ([], None)) \<and>
   readTotalSize \<lparr>store = [0, 0, 0, 9, 0], len = 5\<rparr> 0 = Inr 9 \<and>
   fileSize \<lparr>store = [0, 0, 0, 9, 0], len = 5\<rparr> \<le> 9 \<and>
   NsLoggerParse (Suc 0) lib0 \<lparr>store = [0, 0, 0, 9, 0], len = 5\<rparr> [44] = Some (Inr ([], None))"
proof -
  have a: "cap \<lparr>store = [], len = 0\<rparr> < 4" by (simp add: cap_def)
  have b: "4 \<le> cap \<lparr>store = [0, 0, 0, 0], len = 0\<rparr>" by (simp add: cap_def)
  have c: "4 \<le> cap \<lparr>store = [0, 0, 0, 9, 0], len = 5\<rparr>" by (simp add: cap_def)
  have r: "readTotalSize \<lparr>store = [0, 0, 0, 9, 0], len = 5\<rparr> 0 = Inr 9"
    by (simp add: readTotalSize_def subslice_def cap_def)
  have f: "fileSize \<lparr>store = [0, 0, 0, 9, 0], len = 5\<rparr> \<le> 9" by (simp add: fileSize_def)
  from short_buffer [of "\<lparr>store = [], len = 0\<rparr>" 5 lib0 "[44]"]
       short_buffer [of "\<lparr>store = [0, 0, 0, 0], len = 0\<rparr>" 0 lib0 "[44]"]
       short_buffer [of "\<lparr>store = [0, 0, 0, 9, 0], len = 5\<rparr>" 0 lib0 "[44]"]
       a b c r f
  show ?thesis by auto
qed

section \<open>The loop condition of the frame walker\<close>

text \<open>
  Claim C1, as the code has it. After any number \<open>i\<close> of decoded messages, with the
  cursor \<open>nBytes\<close> at a length field and the \<open>totalSize\<close> read there: the walker takes
  another message to follow exactly when \<open>nBytes + totalSize < fileSize\<close>; otherwise the
  loop ends and the call returns, without an error, the text of the \<open>i\<close> messages
  before, so the message at the cursor gives no line. The sum and the length are
  \<^verbatim>\<open>uint32\<close> values; as long as neither wraps, the test is the one on the numbers.
  The cursor is the offset of the length field, which \<open>totalSize\<close> does not count, so a
  message that ends exactly at the end of the buffer passes the test, and its parts are
  decoded. After the parts of a message the walker reads the next \<open>totalSize\<close> at the
  cursor \<open>n'\<close> it has reached: when the capacity of the buffer reaches \<open>n' + 4\<close>, the line
  of the message is appended and the loop goes on from there; when it does not, the
  slice expression panics and the call returns nothing. For a message that ends at the
  end of the buffer this is the difference between a buffer with at least 4 spare bytes
  of capacity and one without.
\<close>

theorem frame_walker_condition:
  assumes start: "readTotalSize b 0 = Inr t0"
    and before: "afterMessages i L b sep 0 t0 [] = Some (nBytes, totalSize, res)"
  shows "(\<not> nBytes + totalSize < fileSize b \<longrightarrow>
            NsLoggerParse (i + Suc k) L b sep = Some (Inr (res, None))) \<and>
         (nBytes + totalSize < fileSize b \<longrightarrow>
            (\<forall>n' m t'. message L b sep nBytes = Inr (Next n' m) \<and> readTotalSize b n' = Inr t' \<longrightarrow>
               NsLoggerParse (i + Suc k) L b sep = walk k L b sep n' t' (res @ line m) \<and>
               afterMessages (Suc i) L b sep 0 t0 [] = Some (n', t', res @ line m))) \<and>
         (nBytes + totalSize < fileSize b \<longrightarrow>
            (\<forall>n' m. message L b sep nBytes = Inr (Next n' m) \<longrightarrow>
               (unat n' + 4 \<le> cap b \<and> unat n' + 4 < 2 ^ 32 \<longrightarrow>
                  (\<exists>t'. readTotalSize b n' = Inr t' \<and>
                     NsLoggerParse (i + Suc k) L b sep = walk k L b sep n' t' (res @ line m))) \<and>
               (\<not> (unat n' + 4 \<le> cap b \<and> unat n' + 4 < 2 ^ 32) \<longrightarrow>
                  NsLoggerParse (i + Suc k) L b sep = Some (Inl RuntimePanic)))) \<and>
         res = concat (map line (decodedMessages i L b sep 0 t0)) \<and>
         length (decodedMessages i L b sep 0 t0) = i \<and>
         (unat nBytes + unat totalSize < 2 ^ 32 \<and> len b < 2 ^ 32 \<longrightarrow>
            (nBytes + totalSize < fileSize b \<longleftrightarrow> unat nBytes + unat totalSize < len b)) \<and>
         (unat nBytes + 4 + unat totalSize = len b \<and> len b < 2 ^ 32 \<longrightarrow>
            nBytes + totalSize < fileSize b)"
proof (intro conjI impI allI)
  note run = NsLoggerParse_after [OF start before, of "Suc k"]
  show "NsLoggerParse (i + Suc k) L b sep = Some (Inr (res, None))"
    if "\<not> nBytes + totalSize < fileSize b"
    using run that by simp
  show "NsLoggerParse (i + Suc k) L b sep = walk k L b sep n' t' (res @ line m)"
    if "nBytes + totalSize < fileSize b"
      and "message L b sep nBytes = Inr (Next n' m) \<and> readTotalSize b n' = Inr t'" for n' m t'
    using run that by (simp add: line_def)
  show "afterMessages (Suc i) L b sep 0 t0 [] = Some (n', t', res @ line m)"
    if "nBytes + totalSize < fileSize b"
      and "message L b sep nBytes = Inr (Next n' m) \<and> readTotalSize b n' = Inr t'" for n' m t'
    using afterMessages_add [OF before, of "Suc 0"] that by simp
  show "\<exists>t'. readTotalSize b n' = Inr t' \<and>
          NsLoggerParse (i + Suc k) L b sep = walk k L b sep n' t' (res @ line m)"
    if "nBytes + totalSize < fileSize b" and "message L b sep nBytes = Inr (Next n' m)"
      and "unat n' + 4 \<le> cap b \<and> unat n' + 4 < 2 ^ 32" for n' m
  proof -
    from that(3) readTotalSize_ok obtain t' where "readTotalSize b n' = Inr t'" by blast
    then show ?thesis using run that(1,2) by (simp add: line_def)
  qed
  show "NsLoggerParse (i + Suc k) L b sep = Some (Inl RuntimePanic)"
    if "nBytes + totalSize < fileSize b" and "message L b sep nBytes = Inr (Next n' m)"
      and "\<not> (unat n' + 4 \<le> cap b \<and> unat n' + 4 < 2 ^ 32)" for n' m
    using run that(1,2) readTotalSize_panic [OF that(3)] by simp
  show "res = concat (map line (decodedMessages i L b sep 0 t0))"
    using afterMessages_text [OF before] by simp
  show "length (decodedMessages i L b sep 0 t0) = i"
    using afterMessages_text [OF before] by simp
  show "nBytes + totalSize < fileSize b \<longleftrightarrow> unat nBytes + unat totalSize < len b"
    if "unat nBytes + unat totalSize < 2 ^ 32 \<and> len b < 2 ^ 32"
    using that by (simp add: test_lt_exact)
  show "nBytes + totalSize < fileSize b"
    if "unat nBytes + 4 + unat totalSize = len b \<and> len b < 2 ^ 32"
    using that by (simp add: exact_fill_passes)
qed

text \<open>
  The message of \<open>oneMessage\<close> is declared to end where the buffer ends, and it is
  decoded: its line is in the text that the call returns.
\<close>

theorem final_message_decoded:
  "unat (0 :: uint32) + 4 + unat (6 :: uint32) = len oneMessage \<and>
   readTotalSize oneMessage 0 = Inr 6 \<and>
   NsLoggerParse (Suc (Suc 0)) lib0 oneMessage [44] = Some (Inr ([55, 44, 10], None))"
  by (simp add: oneMessage_def run_defs)

theorem frame_walker_condition_witness:
  "NsLoggerParse (Suc 0 + Suc 0) lib0 droppedTail [44] = Some (Inr ([55, 44, 10], None)) \<and>
   afterMessages (Suc 0) lib0 droppedTail [44] 0 6 [] = Some (10, 6, [55, 44, 10]) \<and>
   \<not> (10 :: uint32) + 6 < fileSize droppedTail \<and>
   NsLoggerParse (0 + Suc 2) lib0 droppedTail [44]
     = walk 2 lib0 droppedTail [44] 10 6 ([] @ line \<lparr>value = [55, 44], separator = [44]\<rparr>) \<and>
   (0 :: uint32) + 6 < fileSize oneMessage \<and>
   NsLoggerParse (0 + Suc (Suc 0)) lib0 oneMessage [44] = Some (Inr ([55, 44, 10], None)) \<and>
   (0 :: uint32) + 6 < fileSize oneMessageTight \<and>
   NsLoggerParse (0 + Suc (Suc 0)) lib0 oneMessageTight [44] = Some (Inl RuntimePanic)"
proof -
  have start: "readTotalSize droppedTail 0 = Inr 6"
    by (simp add: droppedTail_def run_defs)
  have zero: "afterMessages 0 lib0 droppedTail [44] 0 6 [] = Some (0, 6, [])"
    by simp
  have one: "afterMessages (Suc 0) lib0 droppedTail [44] 0 6 [] = Some (10, 6, [55, 44, 10])"
    by (simp add: droppedTail_def run_defs)
  have first: "(0 :: uint32) + 6 < fileSize droppedTail"
    by (simp add: droppedTail_def run_defs)
  have msg: "message lib0 droppedTail [44] 0 = Inr (Next 10 \<lparr>value = [55, 44], separator = [44]\<rparr>)"
    by (simp add: droppedTail_def run_defs)
  have nxt: "readTotalSize droppedTail 10 = Inr 6"
    by (simp add: droppedTail_def run_defs)
  have last: "\<not> (10 :: uint32) + 6 < fileSize droppedTail"
    by (simp add: droppedTail_def run_defs)
  have dropped:
    "NsLoggerParse (Suc 0 + Suc 0) lib0 droppedTail [44] = Some (Inr ([55, 44, 10], None)) \<and>
     NsLoggerParse (0 + Suc 2) lib0 droppedTail [44]
       = walk 2 lib0 droppedTail [44] 10 6 ([] @ line \<lparr>value = [55, 44], separator = [44]\<rparr>)"
    using frame_walker_condition [OF start one, of 0]
      frame_walker_condition [OF start zero, of 2] one first msg nxt last
    by simp
  have ps: "readTotalSize oneMessage 0 = Inr 6"
    and pz: "afterMessages 0 lib0 oneMessage [44] 0 6 [] = Some (0, 6, [])"
    and pf: "unat (0 :: uint32) + 4 + unat (6 :: uint32) = len oneMessage \<and> len oneMessage < 2 ^ 32"
    and pm: "message lib0 oneMessage [44] 0 = Inr (Next 10 \<lparr>value = [55, 44], separator = [44]\<rparr>)"
    and pc: "unat (10 :: uint32) + 4 \<le> cap oneMessage \<and> unat (10 :: uint32) + 4 < 2 ^ 32"
    and pn: "readTotalSize oneMessage 10 = Inr 0"
    and pl: "\<not> (10 :: uint32) + 0 < fileSize oneMessage"
    by (simp_all add: oneMessage_def run_defs)
  have padded:
    "(0 :: uint32) + 6 < fileSize oneMessage \<and>
     NsLoggerParse (0 + Suc (Suc 0)) lib0 oneMessage [44] = Some (Inr ([55, 44, 10], None))"
    using frame_walker_condition [OF ps pz, of "Suc 0"] pf pm pc pn pl
    by (simp add: line_def String_def ascii_def)
  have ts: "readTotalSize oneMessageTight 0 = Inr 6"
    and tz: "afterMessages 0 lib0 oneMessageTight [44] 0 6 [] = Some (0, 6, [])"
    and tf: "unat (0 :: uint32) + 4 + unat (6 :: uint32) = len oneMessageTight \<and> len oneMessageTight < 2 ^ 32"
    and tm: "message lib0 oneMessageTight [44] 0 = Inr (Next 10 \<lparr>value = [55, 44], separator = [44]\<rparr>)"
    and tc: "\<not> (unat (10 :: uint32) + 4 \<le> cap oneMessageTight \<and> unat (10 :: uint32) + 4 < 2 ^ 32)"
    by (simp_all add: oneMessageTight_def run_defs)
  have tight:
    "(0 :: uint32) + 6 < fileSize oneMessageTight \<and>
     NsLoggerParse (0 + Suc (Suc 0)) lib0 oneMessageTight [44] = Some (Inl RuntimePanic)"
    using frame_walker_condition [OF ts tz, of "Suc 0"] tf tm tc
    by simp
  from dropped one last padded tight show ?thesis by blast
qed

section \<open>The message sequence number\<close>

text \<open>
  Claim C3, as the code has it. A part with the key \<open>MessageSeq\<close> goes through
  \<open>skipPart\<close>, which handles the types Int32, Int64 and String: for these the
  accumulator is left as it was and the cursor moves on by the 2 bytes of the header
  and the 4, 8 or \<open>n + 4\<close> bytes of the payload. For every other type, Int16, Binary and
  Image included, \<open>skipPart\<close> ends the process.
\<close>

theorem message_seq_skipped:
  assumes key: "index b c = Inr PartKeyMessageSeq"
    and ty: "index b (c + 1) = Inr partType"
  shows "(partType = PartTypeInt32 \<longrightarrow> partStep L b c m = Inr (Next (c + (2 + 4)) m)) \<and>
         (partType = PartTypeInt64 \<longrightarrow> partStep L b c m = Inr (Next (c + (2 + 8)) m)) \<and>
         (partType = PartTypeString \<longrightarrow>
            (\<forall>n. partLength b c = Inr n \<and> n + 4 \<noteq> 0 \<longrightarrow>
               partStep L b c m = Inr (Next (c + (2 + (n + 4))) m))) \<and>
         (partType \<notin> {PartTypeInt32, PartTypeInt64, PartTypeString} \<longrightarrow>
            partStep L b c m = Inl (LogFatal ''Skipping not handled for that part type''))"
proof -
  have sw: "keySwitch L b c PartKeyMessageSeq = andThen (skipPart b c) (\<lambda>usedData. Inr (Some (usedData, [])))"
    by (simp add: keySwitch_def part_consts)
  have step: "partStep L b c m = Inr (Next (c + (2 + u)) m)" if "skipPart b c = Inr u" "u \<noteq> 0" for u
    using key sw that by (simp add: partStep_def addString_def)
  have stop: "partStep L b c m = Inl a" if "skipPart b c = Inl a" for a
    using key sw that by (simp add: partStep_def)
  show ?thesis
  proof (intro conjI impI allI)
    show "partStep L b c m = Inr (Next (c + (2 + 4)) m)" if "partType = PartTypeInt32"
      using that ty by (intro step) (simp_all add: skipPart_def)
    show "partStep L b c m = Inr (Next (c + (2 + 8)) m)" if "partType = PartTypeInt64"
      using that ty by (intro step) (simp_all add: skipPart_def part_consts)
    show "partStep L b c m = Inr (Next (c + (2 + (n + 4))) m)"
      if "partType = PartTypeString" "partLength b c = Inr n \<and> n + 4 \<noteq> 0" for n
      using that ty by (intro step) (simp_all add: skipPart_def part_consts)
    show "partStep L b c m = Inl (LogFatal ''Skipping not handled for that part type'')"
      if "partType \<notin> {PartTypeInt32, PartTypeInt64, PartTypeString}"
      using that ty by (intro stop) (simp add: skipPart_def)
  qed
qed

text \<open>A sequence number of type Int16: the process exits, no cursor is advanced.\<close>

theorem message_seq_int16_exits:
  "NsLoggerParse (Suc 0) lib0 \<lparr>store = [0, 0, 0, 6, 0, 1, 10, 2, 0, 5], len = 10\<rparr> [44]
     = Some (Inl (LogFatal ''Skipping not handled for that part type''))"
  by (simp add: run_defs)

theorem message_seq_skipped_witness:
  "partStep lib0 seqMessages 6 \<lparr>value = [], separator = [44]\<rparr>
     = Inr (Next (6 + (2 + 4)) \<lparr>value = [], separator = [44]\<rparr>) \<and>
   partStep lib0 seqMessages 22 \<lparr>value = [], separator = [44]\<rparr>
     = Inr (Next (22 + (2 + (2 + 4))) \<lparr>value = [], separator = [44]\<rparr>) \<and>
   partStep lib0 \<lparr>store = [10, 2, 0, 5], len = 4\<rparr> 0 \<lparr>value = [], separator = [44]\<rparr>
     = Inl (LogFatal ''Skipping not handled for that part type'') \<and>
   NsLoggerParse (Suc (Suc (Suc 0))) lib0 seqMessages [44]
     = Some (Inr ([55, 44, 10, 104, 105, 44, 10], None))"
proof -
  have k1: "index seqMessages 6 = Inr PartKeyMessageSeq"
    and t1: "index seqMessages (6 + 1) = Inr PartTypeInt32"
    and k2: "index seqMessages 22 = Inr PartKeyMessageSeq"
    and t2: "index seqMessages (22 + 1) = Inr PartTypeString"
    and n2: "partLength seqMessages 22 = Inr 2"
    by (simp_all add: seqMessages_def run_defs)
  have k3: "index \<lparr>store = [10, 2, 0, 5], len = 4\<rparr> 0 = Inr PartKeyMessageSeq"
    and t3: "index \<lparr>store = [10, 2, 0, 5], len = 4\<rparr> (0 + 1) = Inr PartTypeInt16"
    by (simp_all add: run_defs)
  have run: "NsLoggerParse (Suc (Suc (Suc 0))) lib0 seqMessages [44]
      = Some (Inr ([55, 44, 10, 104, 105, 44, 10], None))"
    by (simp add: seqMessages_def run_defs)
  from message_seq_skipped [OF k1 t1, of lib0 "\<lparr>value = [], separator = [44]\<rparr>"]
       message_seq_skipped [OF k2 t2, of lib0 "\<lparr>value = [], separator = [44]\<rparr>"]
       message_seq_skipped [OF k3 t3, of lib0 "\<lparr>value = [], separator = [44]\<rparr>"]
       n2 run
  show ?thesis by (simp add: part_consts)
qed

section \<open>Unknown part types and timestamp types\<close>

lemma partStep_unknown_type:
  assumes "index b c = Inr key" "key \<in> set plainKeys" "index b (c + 1) = Inr partType"
    and "partType \<notin> {PartTypeString, PartTypeBinary, PartTypeInt16, PartTypeInt32, PartTypeInt64, PartTypeImage}"
  shows "partStep L b c m = Inl (LogFatal ''Unkown part type'')"
proof -
  from assms(2) have "keySwitch L b c key = Inr (Some (0, []))"
    by (auto simp: keySwitch_def plainKeys_def part_consts)
  moreover from assms(3,4) have "appendValue L b c m = Inl (LogFatal ''Unkown part type'')"
    by (simp add: appendValue_def)
  ultimately show ?thesis using assms(1) by (simp add: partStep_def)
qed

lemma partStep_bad_date:
  assumes "index b c = Inr PartKeyTimestampS" "index b (c + 1) = Inr partType"
    and "partType \<notin> {PartTypeInt32, PartTypeInt64, PartTypeString}"
  shows "partStep L b c m = Inl (LogFatal ''Date can't be parsed using that part type'')"
proof -
  from assms(2,3) have "readDate L b c = Inl (LogFatal ''Date can't be parsed using that part type'')"
    by (simp add: readDate_def)
  then show ?thesis using assms(1) by (simp add: partStep_def keySwitch_def)
qed

text \<open>
  Claim C4, as the code has it. A part type outside the six types of the format, under a
  key that is decoded by type, and a seconds timestamp of a type other than Int32, Int64
  or String end the whole decode wherever the part stands in the stream, but through
  \<^verbatim>\<open>check\<close>: the process exits in \<^verbatim>\<open>log.Fatal\<close> and nothing is returned to the caller.
  The only error that \<open>NsLoggerParse\<close> ever returns is the unknown-key error.
\<close>

theorem type_errors_exit:
  assumes start: "readTotalSize b 0 = Inr t0"
    and before: "afterMessages i L b sep 0 t0 [] = Some (nBytes, totalSize, res)"
    and cond: "nBytes + totalSize < fileSize b"
    and count: "andThen (subslice b (nBytes + 4) (nBytes + 4 + 2)) Uint16 = Inr partCount"
    and pos: "j < unat partCount"
    and reach: "afterParts j L b (nBytes + 4 + 2) \<lparr>value = [], separator = sep\<rparr> = Some (c, m)"
    and key: "index b c = Inr key"
    and ty: "index b (c + 1) = Inr partType"
  shows "(key \<in> set plainKeys \<and>
          partType \<notin> {PartTypeString, PartTypeBinary, PartTypeInt16, PartTypeInt32, PartTypeInt64, PartTypeImage} \<longrightarrow>
            NsLoggerParse (i + Suc k) L b sep = Some (Inl (LogFatal ''Unkown part type''))) \<and>
         (key = PartKeyTimestampS \<and> partType \<notin> {PartTypeInt32, PartTypeInt64, PartTypeString} \<longrightarrow>
            NsLoggerParse (i + Suc k) L b sep
              = Some (Inl (LogFatal ''Date can't be parsed using that part type''))) \<and>
         (\<forall>fuel out e. NsLoggerParse fuel L b sep = Some (Inr (out, Some e)) \<longrightarrow> e = ''Unkown part key'')"
proof -
  note abort = abort_in_part [OF start before cond count pos reach]
  have a: "NsLoggerParse (i + Suc k) L b sep = Some (Inl (LogFatal ''Unkown part type''))"
    if "key \<in> set plainKeys \<and>
        partType \<notin> {PartTypeString, PartTypeBinary, PartTypeInt16, PartTypeInt32, PartTypeInt64, PartTypeImage}"
    using that key ty by (intro abort partStep_unknown_type) auto
  have d: "NsLoggerParse (i + Suc k) L b sep = Some (Inl (LogFatal ''Date can't be parsed using that part type''))"
    if "key = PartKeyTimestampS \<and> partType \<notin> {PartTypeInt32, PartTypeInt64, PartTypeString}"
    using that key ty by (intro abort partStep_bad_date) auto
  have e: "e = ''Unkown part key''"
    if "NsLoggerParse fuel L b sep = Some (Inr (out, Some e))" for fuel out e
    using that by (auto simp: NsLoggerParse_def split: sum.splits dest: walk_error)
  from a d e show ?thesis by blast
qed

text \<open>A message part of type 9: the process exits.\<close>

theorem unknown_type_exits:
  "NsLoggerParse (Suc 0) lib0 \<lparr>store = [0, 0, 0, 4, 0, 1, 7, 9, 0, 0], len = 10\<rparr> [44]
     = Some (Inl (LogFatal ''Unkown part type''))"
  by (simp add: run_defs)

theorem type_errors_exit_witness:
  "NsLoggerParse (Suc 0 + Suc 0) lib0 badType [44] = Some (Inl (LogFatal ''Unkown part type'')) \<and>
   NsLoggerParse (0 + Suc 0) lib0 badDate [44]
     = Some (Inl (LogFatal ''Date can't be parsed using that part type''))"
proof -
  have s1: "readTotalSize badType 0 = Inr 6"
    and b1: "afterMessages (Suc 0) lib0 badType [44] 0 6 [] = Some (10, 4, [55, 44, 10])"
    and c1: "(10 :: uint32) + 4 < fileSize badType"
    and n1: "andThen (subslice badType (10 + 4) (10 + 4 + 2)) Uint16 = Inr 1"
    and k1: "index badType 16 = Inr 7"
    and t1: "index badType (16 + 1) = Inr 9"
    by (simp_all add: badType_def run_defs)
  have r1: "afterParts 0 lib0 badType (10 + 4 + 2) \<lparr>value = [], separator = [44]\<rparr>
      = Some (16, \<lparr>value = [], separator = [44]\<rparr>)"
    by simp
  have s2: "readTotalSize badDate 0 = Inr 4"
    and c2: "(0 :: uint32) + 4 < fileSize badDate"
    and n2: "andThen (subslice badDate (0 + 4) (0 + 4 + 2)) Uint16 = Inr 1"
    and k2: "index badDate 6 = Inr 1"
    and t2: "index badDate (6 + 1) = Inr 2"
    by (simp_all add: badDate_def run_defs)
  have b2: "afterMessages 0 lib0 badDate [44] 0 4 [] = Some (0, 4, [])"
    by simp
  have r2: "afterParts 0 lib0 badDate (0 + 4 + 2) \<lparr>value = [], separator = [44]\<rparr>
      = Some (6, \<lparr>value = [], separator = [44]\<rparr>)"
    by simp
  have p: "0 < unat (1 :: uint16)" by simp
  from type_errors_exit [OF s1 b1 c1 n1 p r1 k1 t1, of 0]
       type_errors_exit [OF s2 b2 c2 n2 p r2 k2 t2, of 0]
  show ?thesis by (simp add: plainKeys_def part_consts)
qed

end
